theory Spec2Isabelle
  imports Complex_Main "HOL-Library.Multiset" "HOL-Library.List_Lexorder" "HOL-Library.Char_ord"
begin

section \<open>A shallow embedding of the resume ranker (app.py)\<close>

text \<open>
  The program ranks resumes against a job description by the similarity of their
  sentence embeddings (\<^verbatim>\<open>rank_resumes\<close>), writes keyword feedback for each
  resume (\<^verbatim>\<open>get_resume_feedback\<close>) and logs the ranking to a spreadsheet
  (\<^verbatim>\<open>save_results_to_gsheet\<close>).

  Conventions of the model.
  \<^item> A Python \<^verbatim>\<open>str\<close> is a \<^typ>\<open>string\<close>, read as the bytes of its UTF-8
    encoding. \<^verbatim>\<open>lower\<close> and \<^verbatim>\<open>split\<close> are modelled on ASCII text; the three
    pictographs of the output template are written as their UTF-8 bytes.
  \<^item> A Python \<^verbatim>\<open>float\<close> is the \<^typ>\<open>real\<close> it denotes. The program's own float
    arithmetic, one division and one multiplication in the match percentage, is
    rounded to double precision as the interpreter rounds it. The similarity scores
    come from outside the program; the value NaN is outside the model.
  \<^item> A \<^verbatim>\<open>dict\<close> is an association list in insertion order whose keys are distinct.
  \<^item> A \<^verbatim>\<open>set\<close> of strings is a \<^typ>\<open>string set\<close>; the order in which the
    interpreter enumerates it is not fixed by the language (it follows the hashes of
    the elements, which differ from process to process), so it is a parameter
    \<open>iter\<close> of every function that enumerates a set.
  \<^item> An exception is a value of \<open>py_error\<close>.
  \<^item> The embedding model, the clock and the spreadsheet service are outside the
    program: the first two are parameters, the last is a component of the state.
\<close>

subsection \<open>Errors and numbers\<close>

datatype py_error = ZeroDivisionError | SinkError

datatype pynum = PyInt int | PyFloat real

fun num_val :: "pynum \<Rightarrow> real" where
  "num_val (PyInt i) = of_int i"
| "num_val (PyFloat x) = x"

text \<open>
  \<^verbatim>\<open>round(x, ndigits)\<close>: an \<^verbatim>\<open>int\<close> is returned as it is, a
  \<^verbatim>\<open>float\<close> is rounded to the nearest multiple of \<open>10^-ndigits\<close>, a tie going to
  the even neighbour.
\<close>

definition round_half_even :: "real \<Rightarrow> int" where
  "round_half_even x =
     (let f = \<lfloor>x\<rfloor>; d = x - of_int f
      in if d < 1 / 2 then f else if 1 / 2 < d then f + 1 else if even f then f else f + 1)"

definition py_round :: "pynum \<Rightarrow> nat \<Rightarrow> pynum" where
  "py_round v ndigits =
     (case v of
        PyInt i \<Rightarrow> PyInt i
      | PyFloat x \<Rightarrow> PyFloat (of_int (round_half_even (x * 10 ^ ndigits)) / 10 ^ ndigits))"

text \<open>
  Arithmetic on \<^verbatim>\<open>float\<close>s. A double is a mantissa of at most 53 bits times a
  power of two; \<open>Double m e\<close> stands for \<open>m * 2^e\<close>. Only values that are zero or
  positive arise here, and none near the ends of the exponent range, so signs,
  subnormal numbers and overflow are left out. Every operation returns the double
  nearest to the exact result, a tie going to the even mantissa.
  \<^item> \<open>bit_length\<close> is \<^verbatim>\<open>int.bit_length\<close>.
  \<^item> \<open>round_mant m e\<close> rounds \<open>m * 2^e\<close> to 53 bits.
  \<^item> \<open>float_of_nat\<close> converts an \<^verbatim>\<open>int\<close> operand of a mixed operation.
  \<^item> \<open>fmul\<close> is \<^verbatim>\<open>*\<close> on two floats.
  \<^item> \<open>float_quotient a b\<close> is \<^verbatim>\<open>a / b\<close> on two \<^verbatim>\<open>int\<close>s with \<open>b\<close> not zero: the
    quotient is scaled by the power of two that brings it between \<open>2^52\<close> and \<open>2^53\<close>,
    and rounded there.
\<close>

function bit_length :: "int \<Rightarrow> nat" where
  "bit_length i = (if i \<le> 0 then 0 else Suc (bit_length (i div 2)))"
  by pat_completeness auto
termination by (relation "measure nat") auto

declare bit_length.simps [simp del]

definition pow2 :: "int \<Rightarrow> real" where
  "pow2 e = (if 0 \<le> e then 2 ^ nat e else 1 / 2 ^ nat (- e))"

datatype double = Double int int

fun dval :: "double \<Rightarrow> real" where
  "dval (Double m e) = of_int m * pow2 e"

definition round_mant :: "int \<Rightarrow> int \<Rightarrow> double" where
  "round_mant m e =
     (let s = int (bit_length m) - 53
      in if s \<le> 0 then Double m e
         else Double (round_half_even (of_int m / pow2 s)) (e + s))"

definition float_of_nat :: "nat \<Rightarrow> double" where
  "float_of_nat n = round_mant (int n) 0"

fun fmul :: "double \<Rightarrow> double \<Rightarrow> double" where
  "fmul (Double m1 e1) (Double m2 e2) = round_mant (m1 * m2) (e1 + e2)"

definition float_quotient :: "nat \<Rightarrow> nat \<Rightarrow> double" where
  "float_quotient a b =
     (if a = 0 then Double 0 0
      else let k0 = 53 + int (bit_length (int b)) - int (bit_length (int a));
               k = (if 2 ^ 53 \<le> real a * pow2 k0 / real b then k0 - 1 else k0)
           in Double (round_half_even (real a * pow2 k / real b)) (- k))"

text \<open>
  \<^verbatim>\<open>a / b\<close> on two \<^verbatim>\<open>int\<close>s (here two lengths) is true division: it raises when
  \<open>b\<close> is zero and returns the correctly rounded quotient otherwise.
\<close>

definition py_truediv :: "nat \<Rightarrow> nat \<Rightarrow> py_error + double" where
  "py_truediv a b = (if b = 0 then Inl ZeroDivisionError else Inr (float_quotient a b))"

subsection \<open>Strings\<close>

text \<open>
  \<^verbatim>\<open>str.isspace\<close> on ASCII: tab, line feed, vertical tab, form feed, carriage
  return, the four separators \<open>0x1C\<close> to \<open>0x1F\<close>, and space.
\<close>

definition isspace :: "char \<Rightarrow> bool" where
  "isspace c = (of_char c \<in> {9, 10, 11, 12, 13, 28, 29, 30, 31, 32 :: nat})"

definition lower_char :: "char \<Rightarrow> char" where
  "lower_char c =
     (let n = (of_char c :: nat) in if 65 \<le> n \<and> n \<le> 90 then char_of (n + 32) else c)"

definition lower :: "string \<Rightarrow> string" where
  "lower s = map lower_char s"

fun split_from :: "string \<Rightarrow> string \<Rightarrow> string list" where
  "split_from w [] = (if w = [] then [] else [w])"
| "split_from w (c # cs) =
     (if isspace c then (if w = [] then split_from [] cs else w # split_from [] cs)
      else split_from (w @ [c]) cs)"

definition split :: "string \<Rightarrow> string list" where
  "split s = split_from [] s"

text \<open>\<^verbatim>\<open>sep.join(xs)\<close>.\<close>

fun join :: "string \<Rightarrow> string list \<Rightarrow> string" where
  "join sep [] = []"
| "join sep [x] = x"
| "join sep (x # y # ys) = x @ sep @ join sep (y # ys)"

text \<open>
  \<^verbatim>\<open>str\<close> of a number. An \<^verbatim>\<open>int\<close> prints in decimal. A \<^verbatim>\<open>float\<close> is
  printed here only after \<^verbatim>\<open>round(_, 1)\<close> and between 0 and 100, where Python
  prints the integer part, a point and one digit.
\<close>

definition digit_char :: "nat \<Rightarrow> char" where
  "digit_char d = char_of (48 + d)"

function str_nat :: "nat \<Rightarrow> string" where
  "str_nat n = (if n < 10 then [digit_char n] else str_nat (n div 10) @ [digit_char (n mod 10)])"
  by pat_completeness auto
termination by (relation "measure id") auto

declare str_nat.simps [simp del]

definition str_int :: "int \<Rightarrow> string" where
  "str_int i = (if i < 0 then CHR ''-'' # str_nat (nat (- i)) else str_nat (nat i))"

definition py_str :: "pynum \<Rightarrow> string" where
  "py_str v =
     (case v of
        PyInt i \<Rightarrow> str_int i
      | PyFloat x \<Rightarrow>
          (let t = \<lfloor>x * 10\<rfloor>
           in str_int (t div 10) @ ''.'' @ [digit_char (nat (t mod 10))]))"

subsection \<open>Dictionaries and sorting\<close>

text \<open>
  \<^verbatim>\<open>d[k] = v\<close> replaces the value of a key that is present, at its place, and
  adds a new key at the end; \<^verbatim>\<open>d.items()\<close> lists the entries in insertion order.
\<close>

fun dict_set :: "('k \<times> 'v) list \<Rightarrow> 'k \<Rightarrow> 'v \<Rightarrow> ('k \<times> 'v) list" where
  "dict_set [] k v = [(k, v)]"
| "dict_set ((k', v') # d) k v =
     (if k' = k then (k, v) # d else (k', v') # dict_set d k v)"

definition items :: "('k \<times> 'v) list \<Rightarrow> ('k \<times> 'v) list" where
  "items d = d"

text \<open>
  \<^verbatim>\<open>sorted(xs, key=key, reverse=reverse)\<close>. The sort is stable; with
  \<^verbatim>\<open>reverse=True\<close> the interpreter reverses the list, sorts it in ascending order
  and reverses the result.
\<close>

definition py_sorted :: "('a \<Rightarrow> 'k::linorder) \<Rightarrow> bool \<Rightarrow> 'a list \<Rightarrow> 'a list" where
  "py_sorted key reverse xs =
     (if reverse then rev (sort_key key (rev xs)) else sort_key key xs)"

subsection \<open>Resume ranking\<close>

text \<open>
  \<open>encode\<close> is \<^verbatim>\<open>model.encode(_, convert_to_tensor=True)\<close> and \<open>cos_sim a b\<close> is
  \<^verbatim>\<open>util.cos_sim(a, b).item()\<close>, both of the sentence-transformers library.
  \<open>rank_loop\<close> is the \<^verbatim>\<open>for\<close> loop, \<open>rankings\<close> its accumulator.
\<close>

fun rank_loop :: "(string \<Rightarrow> 'v) \<Rightarrow> ('v \<Rightarrow> 'v \<Rightarrow> real) \<Rightarrow> 'v \<Rightarrow>
    (string \<times> string) list \<Rightarrow> (string \<times> real) list \<Rightarrow> (string \<times> real) list" where
  "rank_loop encode cos_sim job_embed [] rankings = rankings"
| "rank_loop encode cos_sim job_embed ((name, text) # rest) rankings =
     (let resume_embed = encode text;
          score = cos_sim job_embed resume_embed
      in rank_loop encode cos_sim job_embed rest (rankings @ [(name, score)]))"

definition rank_resumes :: "(string \<Rightarrow> 'v) \<Rightarrow> ('v \<Rightarrow> 'v \<Rightarrow> real) \<Rightarrow> string \<Rightarrow>
    (string \<times> string) list \<Rightarrow> (string \<times> real) list" where
  "rank_resumes encode cos_sim job_description resume_texts =
     (let job_embed = encode job_description;
          rankings = rank_loop encode cos_sim job_embed (items resume_texts) []
      in py_sorted snd True rankings)"

text \<open>The entry the loop appends for one candidate.\<close>

definition scored :: "(string \<Rightarrow> 'v) \<Rightarrow> ('v \<Rightarrow> 'v \<Rightarrow> real) \<Rightarrow> string \<Rightarrow>
    string \<times> string \<Rightarrow> string \<times> real" where
  "scored encode cos_sim job_description e =
     (fst e, cos_sim (encode job_description) (encode (snd e)))"

text \<open>A small embedding provider for concrete runs: a text is embedded as its length.\<close>

definition demo_encode :: "string \<Rightarrow> nat" where
  "demo_encode s = length s"

definition demo_cos_sim :: "nat \<Rightarrow> nat \<Rightarrow> real" where
  "demo_cos_sim a b = 1 / (1 + real (max a b - min a b))"

subsection \<open>Keyword feedback\<close>

text \<open>
  The local variables of \<^verbatim>\<open>get_resume_feedback\<close>, each as a function of the two
  texts, in the order of the source.
\<close>

definition jd_keywords :: "string \<Rightarrow> string set" where
  "jd_keywords job_description = set (split (lower job_description))"

definition resume_words :: "string \<Rightarrow> string set" where
  "resume_words resume_text = set (split (lower resume_text))"

definition missing :: "string \<Rightarrow> string \<Rightarrow> string set" where
  "missing resume_text job_description = jd_keywords job_description - resume_words resume_text"

definition match_count :: "string \<Rightarrow> string \<Rightarrow> nat" where
  "match_count resume_text job_description =
     card (jd_keywords job_description \<inter> resume_words resume_text)"

definition total :: "string \<Rightarrow> nat" where
  "total job_description = card (jd_keywords job_description)"

definition match_percent :: "string \<Rightarrow> string \<Rightarrow> py_error + pynum" where
  "match_percent resume_text job_description =
     (if total job_description > 0
      then (case py_truediv (match_count resume_text job_description) (total job_description) of
              Inl e \<Rightarrow> Inl e
            | Inr q \<Rightarrow> Inr (PyFloat (dval (fmul q (float_of_nat 100)))))
      else Inr (PyInt 0))"

text \<open>
  \<^verbatim>\<open>list(missing)[:20]\<close>: the first twenty keywords in the order in which the
  interpreter enumerates the set.
\<close>

definition shown_missing :: "(string set \<Rightarrow> string list) \<Rightarrow> string \<Rightarrow> string \<Rightarrow> string list" where
  "shown_missing iter resume_text job_description =
     take 20 (iter (missing resume_text job_description))"

text \<open>The lines of the report.\<close>

definition percent_line :: "pynum \<Rightarrow> string" where
  "percent_line mp =
     [CHR 0xE2, CHR 0x9C, CHR 0x85] @ '' Resume matches about '' @ py_str (py_round mp 1)
       @ ''% of the job description keywords.''"

definition missing_line :: "string list \<Rightarrow> string" where
  "missing_line shown =
     [CHR 0xF0, CHR 0x9F, CHR 0x94, CHR 0x8D] @ '' Missing keywords (skills or terms): ''
       @ join '', '' shown @ ''.''"

definition all_present_line :: string where
  "all_present_line =
     [CHR 0xF0, CHR 0x9F, CHR 0x8E, CHR 0xAF]
       @ '' All job description keywords are present in the resume!''"

definition suggestion_lines :: "string list" where
  "suggestion_lines =
     ['''',
      ''Suggestions:'',
      ''- Add relevant keywords from the job description.'',
      ''- Clearly highlight matching skills, tools, and achievements.'',
      ''- Use consistent formatting and standard section headers (e.g., Experience, Projects).'',
      ''- Keep it concise, clean, and professional.'']"

definition feedback_lines :: "(string set \<Rightarrow> string list) \<Rightarrow> pynum \<Rightarrow> string \<Rightarrow> string \<Rightarrow> string list" where
  "feedback_lines iter mp resume_text job_description =
     [percent_line mp,
      (if missing resume_text job_description \<noteq> {}
       then missing_line (shown_missing iter resume_text job_description)
       else all_present_line)]
     @ suggestion_lines"

definition get_resume_feedback :: "(string set \<Rightarrow> string list) \<Rightarrow> string \<Rightarrow> string \<Rightarrow> py_error + string" where
  "get_resume_feedback iter resume_text job_description =
     (case match_percent resume_text job_description of
        Inl e \<Rightarrow> Inl e
      | Inr mp \<Rightarrow> Inr (join [CHR 0x0A] (feedback_lines iter mp resume_text job_description)))"

text \<open>
  \<open>iter\<close> enumerates a set when it lists every element once. Two such orders, for
  concrete runs: ascending and descending.
\<close>

definition enumerates :: "(string set \<Rightarrow> string list) \<Rightarrow> string set \<Rightarrow> bool" where
  "enumerates iter S = (set (iter S) = S \<and> distinct (iter S))"

definition iter_ascending :: "string set \<Rightarrow> string list" where
  "iter_ascending S = sorted_list_of_set S"

definition iter_descending :: "string set \<Rightarrow> string list" where
  "iter_descending S = rev (sorted_list_of_set S)"

text \<open>
  Two texts for a concrete run: a reference of 80 keywords and a resume that has 23
  of them, in capitals, and one word of its own.
\<close>

definition reference_80 :: string where
  "reference_80 =
     ''a0 a1 a2 a3 a4 a5 a6 a7 a8 a9 '' @ ''b0 b1 b2 b3 b4 b5 b6 b7 b8 b9 '' @
     ''c0 c1 c2 c3 c4 c5 c6 c7 c8 c9 '' @ ''d0 d1 d2 d3 d4 d5 d6 d7 d8 d9 '' @
     ''e0 e1 e2 e3 e4 e5 e6 e7 e8 e9 '' @ ''f0 f1 f2 f3 f4 f5 f6 f7 f8 f9 '' @
     ''g0 g1 g2 g3 g4 g5 g6 g7 g8 g9 '' @ ''h0 h1 h2 h3 h4 h5 h6 h7 h8 h9''"

definition resume_23 :: string where
  "resume_23 =
     ''A0 A1 A2 A3 A4 A5 A6 A7 A8 A9 '' @ ''B0 B1 B2 B3 B4 B5 B6 B7 B8 B9 '' @ ''C0 C1 C2 zz''"

subsection \<open>Logging to the spreadsheet\<close>

text \<open>
  \<^verbatim>\<open>datetime.now().strftime(fmt)\<close>. \<^verbatim>\<open>%Y\<close> prints the year in decimal, the
  other five directives print two digits.
\<close>

record datetime =
  year :: nat
  month :: nat
  day :: nat
  hour :: nat
  minute :: nat
  second :: nat

definition pad2 :: "nat \<Rightarrow> string" where
  "pad2 n = (if n < 10 then CHR ''0'' # str_nat n else str_nat n)"

definition directive :: "datetime \<Rightarrow> char \<Rightarrow> string" where
  "directive dt d =
     (if d = CHR ''Y'' then str_nat (year dt)
      else if d = CHR ''m'' then pad2 (month dt)
      else if d = CHR ''d'' then pad2 (day dt)
      else if d = CHR ''H'' then pad2 (hour dt)
      else if d = CHR ''M'' then pad2 (minute dt)
      else if d = CHR ''S'' then pad2 (second dt)
      else if d = CHR ''%'' then ''%''
      else [CHR ''%'', d])"

fun strftime :: "datetime \<Rightarrow> string \<Rightarrow> string" where
  "strftime dt [] = []"
| "strftime dt [c] = [c]"
| "strftime dt (c # d # cs) =
     (if c = CHR ''%'' then directive dt d @ strftime dt cs else c # strftime dt (d # cs))"

text \<open>
  The state outside the program: the rows of the first worksheet of the spreadsheet
  \<^verbatim>\<open>resume_score\<close>, how often the clock has been read, and how many more requests
  the spreadsheet service answers before one fails. A failed request raises, and the
  program has no handler, so the first failure ends the run.
\<close>

datatype cell = Str string | Num pynum

record world =
  sheet :: "cell list list"
  now_calls :: nat
  requests_ok :: nat

definition sink_request :: "world \<Rightarrow> py_error + world" where
  "sink_request w =
     (if requests_ok w = 0 then Inl SinkError
      else Inr (w\<lparr>requests_ok := requests_ok w - 1\<rparr>))"

definition connect_to_gsheet :: "world \<Rightarrow> py_error + world" where
  "connect_to_gsheet w = sink_request w"

definition append_row :: "cell list \<Rightarrow> world \<Rightarrow> py_error + world" where
  "append_row r w =
     (case sink_request w of
        Inl e \<Rightarrow> Inl e
      | Inr w1 \<Rightarrow> Inr (w1\<lparr>sheet := sheet w1 @ [r]\<rparr>))"

definition datetime_now :: "(nat \<Rightarrow> datetime) \<Rightarrow> world \<Rightarrow> datetime \<times> world" where
  "datetime_now now w = (now (now_calls w), w\<lparr>now_calls := now_calls w + 1\<rparr>)"

fun save_loop :: "(nat \<Rightarrow> datetime) \<Rightarrow> (string \<times> real) list \<Rightarrow> world \<Rightarrow> py_error option \<times> world" where
  "save_loop now [] w = (None, w)"
| "save_loop now (row # data) w =
     (let (t, w1) = datetime_now now w
      in case append_row
                [Str (fst row),
                 Num (py_round (PyFloat (snd row)) 4),
                 Str (strftime t ''%Y-%m-%d %H:%M:%S'')] w1 of
           Inl e \<Rightarrow> (Some e, w1)
         | Inr w2 \<Rightarrow> save_loop now data w2)"

definition save_results_to_gsheet :: "(nat \<Rightarrow> datetime) \<Rightarrow> (string \<times> real) list \<Rightarrow> world \<Rightarrow> py_error option \<times> world" where
  "save_results_to_gsheet now data w =
     (case connect_to_gsheet w of
        Inl e \<Rightarrow> (Some e, w)
      | Inr sheet_handle \<Rightarrow> save_loop now data sheet_handle)"

text \<open>
  The rows the specification asks for: one per ranking entry, in order, holding the
  name, the score rounded to four decimals and the time of the entry's clock reading.
\<close>

definition logged_row :: "datetime \<Rightarrow> string \<times> real \<Rightarrow> cell list" where
  "logged_row t e =
     [Str (fst e), Num (py_round (PyFloat (snd e)) 4), Str (strftime t ''%Y-%m-%d %H:%M:%S'')]"

fun logged_rows :: "(nat \<Rightarrow> datetime) \<Rightarrow> nat \<Rightarrow> (string \<times> real) list \<Rightarrow> cell list list" where
  "logged_rows now c [] = []"
| "logged_rows now c (e # es) = logged_row (now c) e # logged_rows now (Suc c) es"

text \<open>
  The shape of a printed time: \<open>matches_shape p s\<close> holds when \<open>s\<close> has a decimal
  digit wherever the pattern \<open>p\<close> has the character 9 and the pattern's own character
  elsewhere. \<open>is_datetime\<close> is the range of the fields of a Python
  \<^verbatim>\<open>datetime\<close>.
\<close>

definition is_digit :: "char \<Rightarrow> bool" where
  "is_digit c = (48 \<le> (of_char c :: nat) \<and> (of_char c :: nat) \<le> 57)"

fun matches_shape :: "string \<Rightarrow> string \<Rightarrow> bool" where
  "matches_shape [] [] = True"
| "matches_shape (p # ps) (c # cs) =
     ((if p = CHR ''9'' then is_digit c else c = p) \<and> matches_shape ps cs)"
| "matches_shape _ _ = False"

definition is_datetime :: "datetime \<Rightarrow> bool" where
  "is_datetime dt =
     (1 \<le> year dt \<and> year dt \<le> 9999 \<and> 1 \<le> month dt \<and> month dt \<le> 12 \<and>
      1 \<le> day dt \<and> day dt \<le> 31 \<and> hour dt < 24 \<and> minute dt < 60 \<and> second dt < 60)"

text \<open>A clock for concrete runs: it advances by one second at every reading.\<close>

definition demo_clock :: "nat \<Rightarrow> datetime" where
  "demo_clock k = \<lparr>year = 2024, month = 5, day = 17, hour = 9, minute = 30, second = k mod 60\<rparr>"

section \<open>Resume ranking: properties\<close>

lemma rank_loop_map:
  "rank_loop encode cos_sim je xs acc =
     acc @ map (\<lambda>e. (fst e, cos_sim je (encode (snd e)))) xs"
  by (induction xs arbitrary: acc) (auto simp: Let_def)

lemma rank_resumes_unfold:
  "rank_resumes encode cos_sim jd d =
     rev (sort_key snd (rev (map (scored encode cos_sim jd) d)))"
  by (simp add: rank_resumes_def py_sorted_def rank_loop_map items_def scored_def[abs_def] Let_def)

lemma names_scored: "map fst (map (scored encode cos_sim jd) d) = map fst d"
  by (simp add: scored_def comp_def)

lemma mset_rank_resumes:
  "mset (rank_resumes encode cos_sim jd d) = mset (map (scored encode cos_sim jd) d)"
  by (simp add: rank_resumes_unfold)

lemma dict_set_keys: "set (map fst (dict_set d k v)) = insert k (set (map fst d))"
  by (induction d k v rule: dict_set.induct) (simp_all add: insert_commute)

lemma dict_set_distinct:
  "distinct (map fst d) \<Longrightarrow> distinct (map fst (dict_set d k v))"
proof (induction d)
  case Nil
  then show ?case by simp
next
  case (Cons e d)
  obtain k' v' where e: "e = (k', v')" by (cases e)
  show ?case
  proof (cases "k' = k")
    case True
    with Cons.prems e show ?thesis by simp
  next
    case False
    have "k' \<notin> set (map fst (dict_set d k v))"
      using Cons.prems False e unfolding dict_set_keys by auto
    with Cons False e show ?thesis by simp
  qed
qed

text \<open>
  C1. The ranking is a permutation of the candidates: it has as many entries as the
  dictionary, its names are the dictionary's keys, each once, and every entry is the
  name of a candidate with the score of that candidate's text.
\<close>

theorem rank_resumes_permutation:
  assumes "distinct (map fst resume_texts)"
  shows "length (rank_resumes encode cos_sim jd resume_texts) = length resume_texts
       \<and> mset (map fst (rank_resumes encode cos_sim jd resume_texts)) = mset (map fst resume_texts)
       \<and> set (map fst (rank_resumes encode cos_sim jd resume_texts)) = set (map fst resume_texts)
       \<and> distinct (map fst (rank_resumes encode cos_sim jd resume_texts))
       \<and> mset (rank_resumes encode cos_sim jd resume_texts)
           = mset (map (scored encode cos_sim jd) resume_texts)"
proof -
  let ?r = "rank_resumes encode cos_sim jd resume_texts"
  have m: "mset ?r = mset (map (scored encode cos_sim jd) resume_texts)"
    by (rule mset_rank_resumes)
  have "mset (map fst ?r) = image_mset fst (mset ?r)" by simp
  also have "\<dots> = mset (map fst (map (scored encode cos_sim jd) resume_texts))"
    by (simp only: m mset_map)
  finally have n: "mset (map fst ?r) = mset (map fst resume_texts)"
    by (simp only: names_scored)
  have l: "length ?r = length resume_texts"
    using m by (metis length_map size_mset)
  have s: "set (map fst ?r) = set (map fst resume_texts)"
    using n by (metis set_mset_mset)
  have d: "distinct (map fst ?r)"
    using n assms by (metis mset_eq_imp_distinct_iff)
  show ?thesis using l n s d m by blast
qed

theorem rank_resumes_permutation_witness:
  "distinct (map fst [(''x.pdf'', ''abc''), (''y.pdf'', ''a''), (''z.pdf'', ''abc'')])
   \<and> map fst (rank_resumes demo_encode demo_cos_sim ''ab''
        [(''x.pdf'', ''abc''), (''y.pdf'', ''a''), (''z.pdf'', ''abc'')])
       = [''x.pdf'', ''y.pdf'', ''z.pdf'']
   \<and> length (rank_resumes demo_encode demo_cos_sim ''ab''
        [(''x.pdf'', ''abc''), (''y.pdf'', ''a''), (''z.pdf'', ''abc'')]) = 3"
proof -
  have h: "distinct (map fst [(''x.pdf'', ''abc''), (''y.pdf'', ''a''), (''z.pdf'', ''abc'')])"
    by simp
  have v: "map fst (rank_resumes demo_encode demo_cos_sim ''ab''
        [(''x.pdf'', ''abc''), (''y.pdf'', ''a''), (''z.pdf'', ''abc'')])
       = [''x.pdf'', ''y.pdf'', ''z.pdf'']"
    by (simp add: rank_resumes_def py_sorted_def items_def demo_encode_def demo_cos_sim_def)
  show ?thesis
    using h v rank_resumes_permutation [OF h, of demo_encode demo_cos_sim "''ab''"] by simp
qed

text \<open>
  C2. The ranking is sorted by score in non-increasing order: an entry at an earlier
  position never has a smaller score than one at a later position.
\<close>

theorem rank_resumes_descending:
  assumes "i < j" and "j < length (rank_resumes encode cos_sim jd resume_texts)"
  shows "snd (rank_resumes encode cos_sim jd resume_texts ! j)
           \<le> snd (rank_resumes encode cos_sim jd resume_texts ! i)"
proof -
  let ?r = "rank_resumes encode cos_sim jd resume_texts"
  have "sorted (rev (map snd ?r))"
    by (simp add: rank_resumes_unfold rev_map [symmetric])
  moreover have "i \<le> j" "j < length (map snd ?r)"
    using assms by simp_all
  ultimately have "map snd ?r ! j \<le> map snd ?r ! i"
    by (rule sorted_rev_nth_mono)
  then show ?thesis using assms by simp
qed

theorem rank_resumes_descending_witness:
  "(0::nat) < 1
   \<and> 1 < length (rank_resumes demo_encode demo_cos_sim ''ab'' [(''x.pdf'', ''abcd''), (''y.pdf'', ''a'')])
   \<and> rank_resumes demo_encode demo_cos_sim ''ab'' [(''x.pdf'', ''abcd''), (''y.pdf'', ''a'')]
       = [(''y.pdf'', 1 / 2), (''x.pdf'', 1 / 3)]
   \<and> snd (rank_resumes demo_encode demo_cos_sim ''ab'' [(''x.pdf'', ''abcd''), (''y.pdf'', ''a'')] ! 1)
       \<le> snd (rank_resumes demo_encode demo_cos_sim ''ab'' [(''x.pdf'', ''abcd''), (''y.pdf'', ''a'')] ! 0)"
proof -
  have v: "rank_resumes demo_encode demo_cos_sim ''ab'' [(''x.pdf'', ''abcd''), (''y.pdf'', ''a'')]
       = [(''y.pdf'', 1 / 2), (''x.pdf'', 1 / 3)]"
    by (simp add: rank_resumes_def py_sorted_def items_def demo_encode_def demo_cos_sim_def)
  have l: "1 < length (rank_resumes demo_encode demo_cos_sim ''ab''
      [(''x.pdf'', ''abcd''), (''y.pdf'', ''a'')])"
    by (simp add: v)
  have z: "(0::nat) < 1" by simp
  show ?thesis
    using z l v rank_resumes_descending [OF z l] by blast
qed

text \<open>
  C6. The sort is stable: for every score, the candidates that have this score
  appear in the ranking in the order in which the dictionary lists them.
\<close>

theorem rank_resumes_stable:
  "filter (\<lambda>e. snd e = s) (rank_resumes encode cos_sim jd resume_texts)
     = filter (\<lambda>e. snd e = s) (map (scored encode cos_sim jd) (items resume_texts))"
  by (simp add: rank_resumes_unfold items_def rev_filter [symmetric] sort_key_stable)

section \<open>Double arithmetic: properties\<close>

text \<open>
  The bounds of \<open>bit_length\<close> and of rounding, and from them: the percentage of a
  part of a whole lies between 0 and 100, within \<open>2^-45\<close> of the exact value, and
  is exactly 100 when the part is the whole.
\<close>

lemma pow2_nat: "pow2 (int K) = 2 ^ K"
  by (simp add: pow2_def)

lemma pow2_neg: "pow2 (- int K) = 1 / 2 ^ K"
  by (cases "K = 0") (simp_all add: pow2_def)

lemma bit_length_nonpos: "i \<le> 0 \<Longrightarrow> bit_length i = 0"
  by (simp add: bit_length.simps[of i])

lemma bit_length_pos: "0 < i \<Longrightarrow> bit_length i = Suc (bit_length (i div 2))"
  by (simp add: bit_length.simps[of i])

lemma bit_length_upper: "i < 2 ^ bit_length i"
proof (induction i rule: bit_length.induct)
  case (1 i)
  show ?case
  proof (cases "i \<le> 0")
    case True
    then show ?thesis by (simp add: bit_length_nonpos)
  next
    case False
    with 1 have "i div 2 < 2 ^ bit_length (i div 2)" by simp
    then have "i < 2 * 2 ^ bit_length (i div 2)" by linarith
    with False show ?thesis by (simp add: bit_length_pos)
  qed
qed

lemma bit_length_lower: "0 < i \<Longrightarrow> 2 ^ (bit_length i - 1) \<le> i"
proof (induction i rule: bit_length.induct)
  case (1 i)
  then have pos: "0 < i" by simp
  have bl: "bit_length i = Suc (bit_length (i div 2))"
    using pos by (rule bit_length_pos)
  show ?case
  proof (cases "i div 2 \<le> 0")
    case True
    then have "bit_length (i div 2) = 0" by (rule bit_length_nonpos)
    with bl pos show ?thesis by simp
  next
    case False
    then have p2: "0 < i div 2" by simp
    from pos have "\<not> i \<le> 0" by simp
    from "1.IH"[OF this p2] have ih: "2 ^ (bit_length (i div 2) - 1) \<le> i div 2" .
    have "bit_length (i div 2) = Suc (bit_length (i div 2 div 2))"
      using p2 by (rule bit_length_pos)
    then have "(2::int) ^ bit_length (i div 2) = 2 * 2 ^ (bit_length (i div 2) - 1)"
      by simp
    with ih have "2 ^ bit_length (i div 2) \<le> 2 * (i div 2)" by simp
    also have "\<dots> \<le> i" by simp
    finally show ?thesis by (simp add: bl)
  qed
qed

lemma bit_length_le: "i < 2 ^ b \<Longrightarrow> bit_length i \<le> b"
proof (cases "0 < i")
  case False
  then show ?thesis by (simp add: bit_length_nonpos)
next
  case True
  assume "i < 2 ^ b"
  with bit_length_lower[OF True] have "(2::int) ^ (bit_length i - 1) < 2 ^ b" by linarith
  then have "bit_length i - 1 < b" by (simp add: power_strict_increasing_iff)
  then show ?thesis by linarith
qed

lemma bit_length_mono: "a \<le> b \<Longrightarrow> bit_length a \<le> bit_length b"
  using bit_length_le[of a "bit_length b"] bit_length_upper[of b] by linarith

lemma round_half_even_near: "\<bar>of_int (round_half_even x) - x\<bar> \<le> 1 / 2"
  unfolding round_half_even_def Let_def by (auto; linarith)

lemma round_half_even_le: "x \<le> of_int i \<Longrightarrow> round_half_even x \<le> i"
proof -
  assume a: "x \<le> of_int i"
  have "\<lfloor>x\<rfloor> \<le> \<lfloor>of_int i :: real\<rfloor>" using a by (rule floor_mono)
  then have f: "\<lfloor>x\<rfloor> \<le> i" by simp
  show ?thesis
  proof (cases "\<lfloor>x\<rfloor> = i")
    case True
    with a have "x - of_int \<lfloor>x\<rfloor> \<le> 0" by simp
    then show ?thesis using True by (simp add: round_half_even_def Let_def)
  next
    case False
    with f have "\<lfloor>x\<rfloor> + 1 \<le> i" by simp
    then show ?thesis by (auto simp: round_half_even_def Let_def)
  qed
qed

lemma round_half_even_ge: "of_int i \<le> x \<Longrightarrow> i \<le> round_half_even x"
proof -
  assume "of_int i \<le> x"
  then have "i \<le> \<lfloor>x\<rfloor>" by (simp add: le_floor_iff)
  then show ?thesis by (auto simp: round_half_even_def Let_def)
qed

lemma float_quotient_le:
  assumes "0 < a" "a \<le> b"
  shows "\<exists>K m. 52 \<le> K \<and> float_quotient a b = Double m (- int K) \<and> 0 \<le> m \<and> m \<le> 2 ^ K
           \<and> \<bar>of_int m / 2 ^ K - real a / real b\<bar> \<le> 1 / 2 ^ (K + 1)"
proof -
  define k0 where "k0 = 53 + int (bit_length (int b)) - int (bit_length (int a))"
  define k where "k = (if 2 ^ 53 \<le> real a * pow2 k0 / real b then k0 - 1 else k0)"
  have "bit_length (int a) \<le> bit_length (int b)"
    using assms by (simp add: bit_length_mono)
  then have "53 \<le> k0" by (simp add: k0_def)
  then have k52: "52 \<le> k" by (simp add: k_def)
  define K where "K = nat k"
  have kK: "k = int K" and K52: "52 \<le> K" using k52 by (simp_all add: K_def)
  define x where "x = real a * 2 ^ K / real b"
  define m where "m = round_half_even x"
  have "float_quotient a b = Double (round_half_even (real a * pow2 k / real b)) (- k)"
    unfolding float_quotient_def Let_def k_def k0_def using assms(1) by simp
  then have fq: "float_quotient a b = Double m (- int K)"
    by (simp add: kK pow2_nat m_def x_def)
  have b0: "0 < real b" using assms by simp
  have x0: "0 \<le> x" using b0 by (simp add: x_def)
  have "real a / real b \<le> 1" using assms b0 by simp
  then have "real a / real b * 2 ^ K \<le> 1 * 2 ^ K"
    by (intro mult_right_mono) simp_all
  then have x1: "x \<le> of_int (2 ^ K)" by (simp add: x_def)
  have m0: "0 \<le> m" using round_half_even_ge[of 0 x] x0 by (simp add: m_def)
  have m1: "m \<le> 2 ^ K" using round_half_even_le[OF x1] by (simp add: m_def)
  have near: "\<bar>of_int m - x\<bar> \<le> 1 / 2" using round_half_even_near[of x] by (simp add: m_def)
  have xq: "x / 2 ^ K = real a / real b" by (simp add: x_def)
  have "of_int m / 2 ^ K - real a / real b = (of_int m - x) / 2 ^ K"
    by (simp only: xq[symmetric] diff_divide_distrib)
  then have "\<bar>of_int m / 2 ^ K - real a / real b\<bar> = \<bar>of_int m - x\<bar> / 2 ^ K"
    by (simp only: abs_divide) simp
  also have "\<dots> \<le> (1 / 2) / 2 ^ K"
    using near by (intro divide_right_mono) simp_all
  finally have err: "\<bar>of_int m / 2 ^ K - real a / real b\<bar> \<le> 1 / 2 ^ (K + 1)"
    by simp
  show ?thesis
    using K52 fq m0 m1 err by (intro exI[of _ K] exI[of _ m]) simp
qed

lemma round_mant_percent:
  assumes "0 \<le> M" "M \<le> 100 * 2 ^ K" "52 \<le> K"
  shows "0 \<le> dval (round_mant M (- int K))
       \<and> dval (round_mant M (- int K)) \<le> 100
       \<and> \<bar>dval (round_mant M (- int K)) - of_int M / 2 ^ K\<bar> \<le> 1 / 2 ^ 47"
proof (cases "int (bit_length M) - 53 \<le> 0")
  case True
  then have r: "round_mant M (- int K) = Double M (- int K)"
    by (simp add: round_mant_def)
  have "real_of_int M \<le> real_of_int (100 * 2 ^ K)"
    using assms(2) by (rule of_int_le_iff[THEN iffD2])
  then have "real_of_int M / 2 ^ K \<le> 100"
    by (simp add: field_simps)
  with assms(1) show ?thesis
    by (simp add: r pow2_neg)
next
  case False
  define S where "S = bit_length M - 53"
  have s: "int (bit_length M) - 53 = int S" and S0: "0 < S"
    using False by (simp_all add: S_def)
  have "(100::int) * 2 ^ K < 128 * 2 ^ K" by simp
  with assms(2) have "M < 128 * 2 ^ K" by linarith
  then have "M < 2 ^ (7 + K)" by (simp add: power_add)
  then have "bit_length M \<le> 7 + K" by (rule bit_length_le)
  then have SK: "S + 46 \<le> K" using assms(3) by (simp add: S_def)
  define D where "D = K - S"
  have KD: "K = S + D" and D46: "46 \<le> D" using SK by (simp_all add: D_def)
  define x where "x = real_of_int M / 2 ^ S"
  define m where "m = round_half_even x"
  have e: "- int K + int S = - int D" "int S - int K = - int D" by (simp_all add: KD)
  have r: "round_mant M (- int K) = Double m (- int D)"
    using False by (simp add: round_mant_def s pow2_nat m_def x_def e)
  have v: "dval (round_mant M (- int K)) = of_int m / 2 ^ D"
    by (simp add: r pow2_neg)
  have x0: "0 \<le> x" using assms(1) by (simp add: x_def)
  have "real_of_int M \<le> real_of_int (100 * 2 ^ K)"
    using assms(2) by (rule of_int_le_iff[THEN iffD2])
  then have "real_of_int M / 2 ^ S \<le> real_of_int (100 * 2 ^ K) / 2 ^ S"
    by (rule divide_right_mono) simp
  also have "real_of_int (100 * 2 ^ K) / 2 ^ S = real_of_int (100 * 2 ^ D)"
    by (simp add: KD power_add)
  finally have x1: "x \<le> real_of_int (100 * 2 ^ D)" by (simp add: x_def)
  have m0: "0 \<le> m" using round_half_even_ge[of 0 x] x0 by (simp add: m_def)
  have m1: "m \<le> 100 * 2 ^ D" using round_half_even_le[OF x1] by (simp add: m_def)
  have near: "\<bar>of_int m - x\<bar> \<le> 1 / 2"
    using round_half_even_near[of x] by (simp add: m_def)
  have lo: "0 \<le> real_of_int m / 2 ^ D" using m0 by simp
  have "real_of_int m \<le> real_of_int (100 * 2 ^ D)"
    using m1 by (rule of_int_le_iff[THEN iffD2])
  then have hi: "real_of_int m / 2 ^ D \<le> 100" by (simp add: field_simps)
  have xq: "x / 2 ^ D = real_of_int M / 2 ^ K" by (simp add: x_def KD power_add)
  have "real_of_int m / 2 ^ D - real_of_int M / 2 ^ K = (of_int m - x) / 2 ^ D"
    by (simp only: xq[symmetric] diff_divide_distrib)
  then have "\<bar>real_of_int m / 2 ^ D - real_of_int M / 2 ^ K\<bar> = \<bar>of_int m - x\<bar> / 2 ^ D"
    by (simp only: abs_divide) simp
  also have "\<dots> \<le> (1 / 2) / 2 ^ D"
    using near by (intro divide_right_mono) simp_all
  also have "\<dots> = 1 / 2 ^ (D + 1)" by simp
  also have "\<dots> \<le> 1 / 2 ^ 47"
    using D46 by (intro divide_left_mono power_increasing) simp_all
  finally have err: "\<bar>real_of_int m / 2 ^ D - real_of_int M / 2 ^ K\<bar> \<le> 1 / 2 ^ 47" .
  show ?thesis using lo hi err by (simp only: v simp_thms)
qed

lemma float_of_nat_100: "float_of_nat 100 = Double 100 0"
proof -
  have "bit_length 100 \<le> 53" by (rule bit_length_le) simp
  then show ?thesis by (simp add: float_of_nat_def round_mant_def)
qed

lemma percent_double_bounds:
  assumes "a \<le> b" "0 < b"
  shows "0 \<le> dval (fmul (float_quotient a b) (float_of_nat 100))
       \<and> dval (fmul (float_quotient a b) (float_of_nat 100)) \<le> 100
       \<and> \<bar>dval (fmul (float_quotient a b) (float_of_nat 100)) - 100 * real a / real b\<bar>
           \<le> 1 / 2 ^ 45"
proof (cases "a = 0")
  case True
  have "bit_length 0 = 0" by (rule bit_length_nonpos) simp
  then show ?thesis
    by (simp add: True float_quotient_def float_of_nat_100 round_mant_def)
next
  case False
  then have "0 < a" by simp
  from float_quotient_le[OF this assms(1)] obtain K m where
    K: "52 \<le> K" and fq: "float_quotient a b = Double m (- int K)" and m0: "0 \<le> m"
    and m1: "m \<le> 2 ^ K" and qe: "\<bar>of_int m / 2 ^ K - real a / real b\<bar> \<le> 1 / 2 ^ (K + 1)"
    by blast
  have v: "fmul (float_quotient a b) (float_of_nat 100) = round_mant (m * 100) (- int K)"
    by (simp add: fq float_of_nat_100)
  have M0: "0 \<le> m * 100" using m0 by simp
  have M1: "m * 100 \<le> 100 * 2 ^ K" using m1 by simp
  from round_mant_percent[OF M0 M1 K] have
    lo: "0 \<le> dval (round_mant (m * 100) (- int K))"
    and hi: "dval (round_mant (m * 100) (- int K)) \<le> 100"
    and pe: "\<bar>dval (round_mant (m * 100) (- int K)) - of_int (m * 100) / 2 ^ K\<bar> \<le> 1 / 2 ^ 47"
    by simp_all
  have "(1::real) / 2 ^ (K + 1) \<le> 1 / 2 ^ 53"
    using K by (intro divide_left_mono power_increasing) simp_all
  with qe have "\<bar>of_int m / 2 ^ K - real a / real b\<bar> \<le> 1 / 2 ^ 53" by linarith
  then have q1: "100 * \<bar>of_int m / 2 ^ K - real a / real b\<bar> \<le> 100 * (1 / 2 ^ 53)"
    by (rule mult_left_mono) simp
  have "of_int (m * 100) / 2 ^ K - 100 * real a / real b
      = 100 * (of_int m / 2 ^ K - real a / real b)"
    by (simp add: algebra_simps)
  then have "\<bar>of_int (m * 100) / 2 ^ K - 100 * real a / real b\<bar>
      = \<bar>100 * (of_int m / 2 ^ K - real a / real b)\<bar>"
    by (rule arg_cong)
  also have "\<dots> = 100 * \<bar>of_int m / 2 ^ K - real a / real b\<bar>"
    by (simp only: abs_mult abs_numeral)
  finally have qe': "\<bar>of_int (m * 100) / 2 ^ K - 100 * real a / real b\<bar> \<le> 100 * (1 / 2 ^ 53)"
    using q1 by linarith
  have "\<bar>dval (round_mant (m * 100) (- int K)) - 100 * real a / real b\<bar>
      \<le> 1 / 2 ^ 47 + 100 * (1 / 2 ^ 53)"
    using pe qe' by linarith
  also have "\<dots> \<le> 1 / 2 ^ 45" by simp
  finally show ?thesis using lo hi by (simp only: v simp_thms)
qed

lemma percent_double_full:
  assumes "0 < n"
  shows "dval (fmul (float_quotient n n) (float_of_nat 100)) = 100"
proof -
  have n0: "real n \<noteq> 0" using assms by simp
  have fq: "float_quotient n n = Double (2 ^ 52) (- 52)"
    using assms n0 by (simp add: float_quotient_def pow2_def round_half_even_def)
  have "(100 :: int) * 2 ^ 52 < 2 ^ 59" by simp
  then have up: "bit_length (100 * 2 ^ 52) \<le> 59" by (rule bit_length_le)
  have "(2 :: int) ^ (bit_length (100 * 2 ^ 52) - 1) \<le> 100 * 2 ^ 52"
    by (rule bit_length_lower) simp
  moreover have "(100 :: int) * 2 ^ 52 < 2 ^ 59" by simp
  ultimately have "(2 :: int) ^ (bit_length (100 * 2 ^ 52) - 1) < 2 ^ 59" by linarith
  have "(2 :: int) ^ 58 \<le> 100 * 2 ^ 52" by simp
  also have "\<dots> < 2 ^ bit_length (100 * 2 ^ 52)" by (rule bit_length_upper)
  finally have "58 < bit_length (100 * 2 ^ 52)"
    by (simp add: power_strict_increasing_iff del: power_numeral)
  with up have bl: "bit_length (100 * 2 ^ 52) = 59" by simp
  have bl': "bit_length 450359962737049600 = 59" using bl by simp
  show ?thesis
    by (simp add: fq float_of_nat_100 round_mant_def bl' pow2_def round_half_even_def)
qed

section \<open>Keyword feedback: properties\<close>


lemma match_percent_value:
  "match_percent r j =
     Inr (if jd_keywords j = {} then PyInt 0
          else PyFloat (dval (fmul
                 (float_quotient (card (jd_keywords j \<inter> resume_words r)) (card (jd_keywords j)))
                 (float_of_nat 100))))"
  by (simp add: match_percent_def total_def match_count_def py_truediv_def jd_keywords_def card_gt_0_iff)

lemma overlap_le_total: "card (jd_keywords j \<inter> resume_words r) \<le> card (jd_keywords j)"
  by (simp add: jd_keywords_def card_mono)

lemma match_percent_example:
  "match_percent ''experienced Python developer'' ''PYTHON developer with SQL experience''
     = Inr (PyFloat 40)"
  by code_simp

text \<open>
  C3, as the code has it. The match percentage is the integer 0 when the reference
  has no keyword. Otherwise it is the float that \<^verbatim>\<open>(match_count / total) * 100\<close>
  gives in double precision: the quotient of the number of reference keywords found
  among the resume's words by the number of reference keywords, rounded, times 100,
  rounded again. It lies between 0 and 100 and differs from the exact value of
  100 times the quotient by less than \<open>2^-45\<close>. The division never raises. Keywords
  and words are the sets of the whitespace-separated tokens of the lowercased
  texts: in the last line two of five keywords are found, whatever their case.
\<close>

theorem match_percent_formula:
  "match_percent r j =
     Inr (if set (split (lower j)) = {} then PyInt 0
          else PyFloat (dval (fmul
                 (float_quotient (card (set (split (lower j)) \<inter> set (split (lower r))))
                    (card (set (split (lower j)))))
                 (float_of_nat 100))))
   \<and> (\<exists>p. match_percent r j = Inr p \<and> 0 \<le> num_val p \<and> num_val p \<le> 100
          \<and> (if set (split (lower j)) = {} then p = PyInt 0
              else \<bar>num_val p
                     - 100 * real (card (set (split (lower j)) \<inter> set (split (lower r))))
                         / real (card (set (split (lower j))))\<bar> \<le> 1 / 2 ^ 45))
   \<and> match_percent ''experienced Python developer'' ''PYTHON developer with SQL experience''
       = Inr (PyFloat 40)"
proof -
  let ?J = "set (split (lower j))" and ?R = "set (split (lower r))"
  have v: "match_percent r j =
     Inr (if ?J = {} then PyInt 0
          else PyFloat (dval (fmul (float_quotient (card (?J \<inter> ?R)) (card ?J)) (float_of_nat 100))))"
    using match_percent_value[of r j] by (simp only: jd_keywords_def resume_words_def)
  have le: "card (?J \<inter> ?R) \<le> card ?J"
    using overlap_le_total[of j r] by (simp only: jd_keywords_def resume_words_def)
  have pos: "?J \<noteq> {} \<Longrightarrow> 0 < card ?J"
    by (simp add: card_gt_0_iff)
  have b: "0 \<le> dval (fmul (float_quotient (card (?J \<inter> ?R)) (card ?J)) (float_of_nat 100))
      \<and> dval (fmul (float_quotient (card (?J \<inter> ?R)) (card ?J)) (float_of_nat 100)) \<le> 100
      \<and> \<bar>dval (fmul (float_quotient (card (?J \<inter> ?R)) (card ?J)) (float_of_nat 100))
            - 100 * real (card (?J \<inter> ?R)) / real (card ?J)\<bar> \<le> 1 / 2 ^ 45"
    if "?J \<noteq> {}"
    using percent_double_bounds[OF le pos[OF that]] .
  have e: "\<exists>p. match_percent r j = Inr p \<and> 0 \<le> num_val p \<and> num_val p \<le> 100
          \<and> (if ?J = {} then p = PyInt 0
              else \<bar>num_val p - 100 * real (card (?J \<inter> ?R)) / real (card ?J)\<bar> \<le> 1 / 2 ^ 45)"
  proof (cases "?J = {}")
    case True
    then show ?thesis by (simp add: v)
  next
    case False
    from b[OF False] False show ?thesis by (simp add: v)
  qed
  show ?thesis
    using v e match_percent_example by (simp only: simp_thms)
qed

text \<open>
  C3 as stated fails where the two roundings matter: with 23 of 80 keywords found
  the exact percentage is 28.75, the code's is the double just below it, and the
  report prints 28.7 where the exact value would print 28.8.
\<close>

theorem match_percent_exact_counterexample:
  "card (set (split (lower reference_80))) = 80
   \<and> card (set (split (lower reference_80)) \<inter> set (split (lower resume_23))) = 23
   \<and> match_percent resume_23 reference_80
       = Inr (PyFloat (8092405580431359 / 281474976710656))
   \<and> (8092405580431359 / 281474976710656 :: real) < 100 * 23 / 80
   \<and> percent_line (PyFloat (8092405580431359 / 281474976710656))
       = [CHR 0xE2, CHR 0x9C, CHR 0x85]
           @ '' Resume matches about 28.7% of the job description keywords.''
   \<and> percent_line (PyFloat (100 * 23 / 80))
       = [CHR 0xE2, CHR 0x9C, CHR 0x85]
           @ '' Resume matches about 28.8% of the job description keywords.''"
proof -
  have a: "card (set (split (lower reference_80))) = 80"
    by code_simp
  have b: "card (set (split (lower reference_80)) \<inter> set (split (lower resume_23))) = 23"
    by code_simp
  have c: "match_percent resume_23 reference_80
       = Inr (PyFloat (8092405580431359 / 281474976710656))"
    by code_simp
  have d: "(8092405580431359 / 281474976710656 :: real) < 100 * 23 / 80"
    by simp
  have e: "percent_line (PyFloat (8092405580431359 / 281474976710656))
       = [CHR 0xE2, CHR 0x9C, CHR 0x85]
           @ '' Resume matches about 28.7% of the job description keywords.''"
    by code_simp
  have f: "percent_line (PyFloat (100 * 23 / 80))
       = [CHR 0xE2, CHR 0x9C, CHR 0x85]
           @ '' Resume matches about 28.8% of the job description keywords.''"
    by code_simp
  show ?thesis using a b c d e f by (simp only: simp_thms)
qed

text \<open>
  C4. The keywords listed in the second line of the report are at most twenty,
  however many are missing; when the interpreter's order enumerates the set of
  missing keywords, they are twenty of them, or all if there are fewer, each once.
\<close>

theorem shown_missing_capped:
  "length (shown_missing iter r j) \<le> 20
   \<and> feedback_lines iter mp r j ! 1
       = (if missing r j = {} then all_present_line
          else missing_line (shown_missing iter r j))
   \<and> (enumerates iter (missing r j) \<longrightarrow>
        length (shown_missing iter r j) = min 20 (card (missing r j))
        \<and> set (shown_missing iter r j) \<subseteq> missing r j
        \<and> distinct (shown_missing iter r j))"
proof -
  have "enumerates iter (missing r j) \<Longrightarrow> length (iter (missing r j)) = card (missing r j)"
    by (metis distinct_card enumerates_def)
  moreover have "enumerates iter (missing r j) \<Longrightarrow> set (take 20 (iter (missing r j))) \<subseteq> missing r j"
    by (metis enumerates_def set_take_subset)
  moreover have "feedback_lines iter mp r j ! 1
       = (if missing r j = {} then all_present_line
          else missing_line (shown_missing iter r j))"
    by (simp add: feedback_lines_def)
  ultimately show ?thesis
    by (auto simp: shown_missing_def enumerates_def min_def)
qed

theorem shown_missing_capped_witness:
  "enumerates iter_ascending (missing ''a'' ''a b c d e f g h i j k l m n o p q r s t u v'')
   \<and> card (missing ''a'' ''a b c d e f g h i j k l m n o p q r s t u v'') = 21
   \<and> length (shown_missing iter_ascending ''a'' ''a b c d e f g h i j k l m n o p q r s t u v'') = 20"
proof -
  have e: "enumerates iter_ascending (missing ''a'' ''a b c d e f g h i j k l m n o p q r s t u v'')"
    by (simp add: enumerates_def iter_ascending_def missing_def jd_keywords_def)
  have c: "card (missing ''a'' ''a b c d e f g h i j k l m n o p q r s t u v'') = 21"
    by code_simp
  show ?thesis
    using e c shown_missing_capped [of iter_ascending "''a''"
        "''a b c d e f g h i j k l m n o p q r s t u v''"]
    by simp
qed

lemma missing_self: "missing t t = {}"
  by (simp add: missing_def jd_keywords_def resume_words_def)

lemma get_resume_feedback_value:
  "get_resume_feedback iter r j =
     Inr (join [CHR 0x0A]
       (feedback_lines iter
          (if jd_keywords j = {} then PyInt 0
           else PyFloat (dval (fmul
                  (float_quotient (card (jd_keywords j \<inter> resume_words r)) (card (jd_keywords j)))
                  (float_of_nat 100))))
          r j))"
  by (simp add: get_resume_feedback_def match_percent_value)

text \<open>
  C5, as the code has it. For a text compared with itself no keyword is missing and
  the report carries the all-present line; the match percentage is 100.0 when the
  text has a token, and the integer 0 when it has none.
\<close>

theorem feedback_self:
  "missing t t = {}
   \<and> match_percent t t = Inr (if split (lower t) = [] then PyInt 0 else PyFloat 100)
   \<and> get_resume_feedback iter t t =
       Inr (join [CHR 0x0A]
         ([percent_line (if split (lower t) = [] then PyInt 0 else PyFloat 100), all_present_line]
          @ suggestion_lines))"
proof -
  have w: "resume_words t = jd_keywords t"
    by (simp add: jd_keywords_def resume_words_def)
  have p: "match_percent t t = Inr (if split (lower t) = [] then PyInt 0 else PyFloat 100)"
  proof (cases "split (lower t) = []")
    case True
    then have "jd_keywords t = {}" by (simp add: jd_keywords_def)
    with True show ?thesis by (simp add: match_percent_value)
  next
    case False
    then have ne: "jd_keywords t \<noteq> {}" by (simp add: jd_keywords_def)
    have "finite (jd_keywords t)" by (simp add: jd_keywords_def)
    with ne have "0 < card (jd_keywords t)" by (simp add: card_gt_0_iff)
    then have "dval (fmul (float_quotient (card (jd_keywords t)) (card (jd_keywords t)))
        (float_of_nat 100)) = 100"
      by (rule percent_double_full)
    with False ne show ?thesis by (simp add: match_percent_value w)
  qed
  have l: "feedback_lines iter mp t t = [percent_line mp, all_present_line] @ suggestion_lines" for mp
    by (simp add: feedback_lines_def missing_self)
  show ?thesis
    by (simp only: missing_self p get_resume_feedback_def sum.case l simp_thms)
qed

text \<open>
  C5 as stated fails on the empty text: the percentage is 0, not 100.
\<close>

theorem feedback_self_counterexample:
  "match_percent [] [] = Inr (PyInt 0) \<and> match_percent [] [] \<noteq> Inr (PyFloat 100)"
  by (simp add: match_percent_value jd_keywords_def split_def lower_def)

lemma enumerates_singleton:
  assumes "enumerates h {x}"
  shows "h {x} = [x]"
proof (cases "h {x}")
  case Nil
  with assms show ?thesis by (simp add: enumerates_def)
next
  case (Cons y ys)
  from assms have s: "set (h {x}) = {x}" and d: "distinct (h {x})"
    by (simp_all add: enumerates_def)
  from s Cons have m: "y = x" "set ys \<subseteq> {x}" by auto
  from d Cons have "y \<notin> set ys" by simp
  with m have "ys = []" by (cases ys) auto
  with m Cons show ?thesis by simp
qed

lemma enumerates_small:
  assumes "enumerates f S" "enumerates g S" "card S \<le> 1" "finite S"
  shows "f S = g S"
proof (cases "S = {}")
  case True
  with assms show ?thesis by (simp add: enumerates_def)
next
  case False
  with assms have "card S = 1"
    by (simp add: card_gt_0_iff Suc_le_eq le_Suc_eq)
  then obtain x where x: "S = {x}"
    by (auto simp: card_1_singleton_iff)
  with assms show ?thesis
    by (simp add: enumerates_singleton)
qed

text \<open>
  C8, as the code has it. The report is a function of the two texts and of the order
  in which the interpreter enumerates the set of missing keywords: two runs agree on
  every line but the second, and on the whole report when at most one keyword is
  missing.
\<close>

theorem feedback_up_to_iteration_order:
  "(\<exists>mp. get_resume_feedback iter1 r j = Inr (join [CHR 0x0A] (feedback_lines iter1 mp r j))
        \<and> get_resume_feedback iter2 r j = Inr (join [CHR 0x0A] (feedback_lines iter2 mp r j))
        \<and> feedback_lines iter2 mp r j
            = (feedback_lines iter1 mp r j)[1 := feedback_lines iter2 mp r j ! 1])
   \<and> (enumerates iter1 (missing r j) \<and> enumerates iter2 (missing r j) \<and> card (missing r j) \<le> 1
        \<longrightarrow> get_resume_feedback iter1 r j = get_resume_feedback iter2 r j)"
proof -
  have fin: "finite (missing r j)"
    by (simp add: missing_def jd_keywords_def)
  have "enumerates iter1 (missing r j) \<Longrightarrow> enumerates iter2 (missing r j) \<Longrightarrow> card (missing r j) \<le> 1
        \<Longrightarrow> iter1 (missing r j) = iter2 (missing r j)"
    using enumerates_small[OF _ _ _ fin] by blast
  then show ?thesis
    by (auto simp: get_resume_feedback_value feedback_lines_def shown_missing_def)
qed

theorem feedback_up_to_iteration_order_witness:
  "enumerates iter_ascending (missing ''x'' ''a x'')
   \<and> enumerates iter_descending (missing ''x'' ''a x'')
   \<and> card (missing ''x'' ''a x'') \<le> 1
   \<and> get_resume_feedback iter_ascending ''x'' ''a x''
       = get_resume_feedback iter_descending ''x'' ''a x''"
proof -
  have e: "enumerates iter_ascending (missing ''x'' ''a x'')"
    "enumerates iter_descending (missing ''x'' ''a x'')"
    by (simp_all add: enumerates_def iter_ascending_def iter_descending_def missing_def jd_keywords_def)
  have c: "card (missing ''x'' ''a x'') \<le> 1"
    by code_simp
  show ?thesis
    using e c feedback_up_to_iteration_order [of iter_ascending "''x''" "''a x''" iter_descending]
    by simp
qed

text \<open>
  C8 as stated fails: with two keywords missing, two enumeration orders of the same
  set give two different reports for the same texts.
\<close>

theorem feedback_order_counterexample:
  "enumerates iter_ascending (missing ''x'' ''a b'')
   \<and> enumerates iter_descending (missing ''x'' ''a b'')
   \<and> shown_missing iter_ascending ''x'' ''a b'' = [''a'', ''b'']
   \<and> shown_missing iter_descending ''x'' ''a b'' = [''b'', ''a'']
   \<and> get_resume_feedback iter_ascending ''x'' ''a b''
       \<noteq> get_resume_feedback iter_descending ''x'' ''a b''"
proof -
  have e: "enumerates iter_ascending (missing ''x'' ''a b'')"
    "enumerates iter_descending (missing ''x'' ''a b'')"
    by (simp_all add: enumerates_def iter_ascending_def iter_descending_def missing_def jd_keywords_def)
  have s: "shown_missing iter_ascending ''x'' ''a b'' = [''a'', ''b'']"
    "shown_missing iter_descending ''x'' ''a b'' = [''b'', ''a'']"
    by code_simp+
  have d: "get_resume_feedback iter_ascending ''x'' ''a b''
       \<noteq> get_resume_feedback iter_descending ''x'' ''a b''"
    by code_simp
  show ?thesis using e s d by simp
qed






section \<open>Logging to the spreadsheet: properties\<close>

lemma strftime_unfold:
  "strftime dt ''%Y-%m-%d %H:%M:%S'' =
     str_nat (year dt) @ ''-'' @ pad2 (month dt) @ ''-'' @ pad2 (day dt) @ '' '' @
     pad2 (hour dt) @ '':'' @ pad2 (minute dt) @ '':'' @ pad2 (second dt)"
  by (simp add: directive_def)

lemma is_digit_digit_char: "n < 10 \<Longrightarrow> is_digit (digit_char n)"
  by (simp add: is_digit_def digit_char_def of_char_of)

lemma digit_char_0: "digit_char 0 = CHR ''0''"
  by (simp add: digit_char_def char_of_def bit_Suc_0_iff)

lemma pad2_digits:
  assumes "n < 100"
  shows "pad2 n = [digit_char (n div 10), digit_char (n mod 10)]"
proof (cases "n < 10")
  case True
  then show ?thesis by (simp add: pad2_def str_nat.simps[of n] digit_char_0)
next
  case False
  with assms have "n div 10 < 10" by simp
  with False show ?thesis
    by (simp add: pad2_def str_nat.simps[of n] str_nat.simps[of "n div 10"])
qed

lemma str_nat_4digits:
  assumes "1000 \<le> n" "n \<le> 9999"
  shows "str_nat n = [digit_char (n div 1000), digit_char (n div 100 mod 10),
                      digit_char (n div 10 mod 10), digit_char (n mod 10)]"
proof -
  have a: "\<not> n < 10" "\<not> n div 10 < 10" "\<not> n div 100 < 10" "n div 1000 < 10"
    using assms by auto
  have b: "n div 10 div 10 = n div 100" "n div 100 div 10 = n div 1000"
    by (simp_all add: div_mult2_eq[symmetric])
  have "str_nat (n div 1000) = [digit_char (n div 1000)]"
    using a(4) by (simp add: str_nat.simps[of "n div 1000"])
  then have "str_nat (n div 100) = [digit_char (n div 1000), digit_char (n div 100 mod 10)]"
    using a(3) by (simp add: str_nat.simps[of "n div 100"] b)
  then have "str_nat (n div 10) =
      [digit_char (n div 1000), digit_char (n div 100 mod 10), digit_char (n div 10 mod 10)]"
    using a(2) by (simp add: str_nat.simps[of "n div 10"] b)
  then show ?thesis
    using a(1) by (simp add: str_nat.simps[of n])
qed

lemma strftime_shape:
  assumes "is_datetime dt" "1000 \<le> year dt"
  shows "matches_shape ''9999-99-99 99:99:99'' (strftime dt ''%Y-%m-%d %H:%M:%S'')"
proof -
  have y: "year dt \<le> 9999" and m: "month dt < 100" and d: "day dt < 100"
    and h: "hour dt < 100" and mi: "minute dt < 100" and s: "second dt < 100"
    using assms by (auto simp: is_datetime_def)
  have dg: "\<And>k. is_digit (digit_char (k mod 10))"
    by (simp add: is_digit_digit_char)
  have dv: "\<And>k. k < 100 \<Longrightarrow> is_digit (digit_char (k div 10))"
    by (simp add: is_digit_digit_char)
  have yd: "is_digit (digit_char (year dt div 1000))"
    using y by (simp add: is_digit_digit_char)
  show ?thesis
    unfolding strftime_unfold
    by (simp add: str_nat_4digits[OF assms(2) y] pad2_digits m d h mi s dg dv yd)
qed

lemma save_loop_rows:
  "save_loop now data w = (r, w') \<Longrightarrow>
     (\<exists>k\<le>length data. sheet w' = sheet w @ take k (logged_rows now (now_calls w) data) \<and>
        (r = None \<longrightarrow> k = length data))"
proof (induction data arbitrary: w)
  case Nil
  then show ?case by simp
next
  case (Cons row data)
  let ?w1 = "w\<lparr>now_calls := now_calls w + 1\<rparr>"
  let ?row = "logged_row (now (now_calls w)) row"
  show ?case
  proof (cases "requests_ok w = 0")
    case True
    with Cons.prems have "r = Some SinkError" "w' = ?w1"
      by (auto simp: datetime_now_def append_row_def sink_request_def)
    then show ?thesis by (intro exI[of _ 0]) simp
  next
    case False
    let ?w2 = "?w1\<lparr>requests_ok := requests_ok w - 1, sheet := sheet w @ [?row]\<rparr>"
    from False Cons.prems have "save_loop now data ?w2 = (r, w')"
      by (simp add: datetime_now_def append_row_def sink_request_def logged_row_def)
    from Cons.IH[OF this] obtain k where k: "k \<le> length data"
      "sheet w' = sheet ?w2 @ take k (logged_rows now (now_calls ?w2) data)"
      "r = None \<longrightarrow> k = length data" by blast
    then show ?thesis
      by (intro exI[of _ "Suc k"]) simp
  qed
qed

lemma save_loop_ok:
  "length data \<le> requests_ok w \<Longrightarrow> fst (save_loop now data w) = None"
proof (induction data arbitrary: w)
  case Nil
  then show ?case by simp
next
  case (Cons row data)
  then show ?case
    by (simp add: datetime_now_def append_row_def sink_request_def)
qed

lemma logged_rows_shape:
  assumes "\<forall>k. is_datetime (now k) \<and> 1000 \<le> year (now k)"
  shows "\<forall>row \<in> set (logged_rows now c data).
           \<exists>name e q ts. (name, e) \<in> set data \<and> row = [Str name, Num (PyFloat (of_int q / 10000)), Str ts] \<and>
              \<bar>of_int q / 10000 - e\<bar> \<le> 1 / 20000 \<and> matches_shape ''9999-99-99 99:99:99'' ts"
proof (induction data arbitrary: c)
  case Nil
  then show ?case by simp
next
  case (Cons e es)
  obtain name x where e: "e = (name, x)" by (cases e)
  have near: "\<bar>of_int (round_half_even (x * 10000)) / 10000 - x\<bar> \<le> 1 / 20000"
    using round_half_even_near[of "x * 10000"] by (simp add: field_simps)
  have "\<exists>q ts. logged_row (now c) e = [Str name, Num (PyFloat (of_int q / 10000)), Str ts] \<and>
          \<bar>of_int q / 10000 - x\<bar> \<le> 1 / 20000 \<and> matches_shape ''9999-99-99 99:99:99'' ts"
    using assms near strftime_shape[of "now c"]
    by (auto simp add: logged_row_def e py_round_def simp del: strftime.simps)
  with Cons.IH[of "Suc c"] show ?case
    by (fastforce simp: e)
qed


lemma demo_clock_valid: "is_datetime (demo_clock k) \<and> 1000 \<le> year (demo_clock k)"
  by (simp add: is_datetime_def demo_clock_def)

text \<open>
  C9. The logger only appends: the worksheet after the run is the worksheet before it
  followed by a prefix of the rows of the ranking, in the ranking's order. When the
  run raises nothing, every entry has its row, and it raises nothing when the service
  answers one request for the connection and one per entry. A row holds the name, the
  score rounded to a multiple of 0.0001 at most 0.00005 away from it, and the clock
  reading of the entry printed as four digits, two, two, a space, and three times two
  digits separated by colons (for a clock in the years 1000 to 9999).
\<close>

theorem save_results_appends_rows:
  assumes "save_results_to_gsheet now data w = (r, w')"
  shows "(\<exists>k\<le>length data. sheet w' = sheet w @ take k (logged_rows now (now_calls w) data))
       \<and> (r = None \<longrightarrow> sheet w' = sheet w @ logged_rows now (now_calls w) data)
       \<and> (length data < requests_ok w \<longrightarrow> r = None)
       \<and> ((\<forall>k. is_datetime (now k) \<and> 1000 \<le> year (now k)) \<longrightarrow>
            (\<forall>row \<in> set (logged_rows now (now_calls w) data).
               \<exists>name e q ts. (name, e) \<in> set data
                 \<and> row = [Str name, Num (PyFloat (of_int q / 10000)), Str ts]
                 \<and> \<bar>of_int q / 10000 - e\<bar> \<le> 1 / 20000
                 \<and> matches_shape ''9999-99-99 99:99:99'' ts))"
proof (cases "requests_ok w = 0")
  case True
  with assms have "r = Some SinkError" "w' = w"
    by (auto simp: save_results_to_gsheet_def connect_to_gsheet_def sink_request_def)
  with True show ?thesis
    using logged_rows_shape[of now "now_calls w" data] by auto
next
  case False
  let ?w1 = "w\<lparr>requests_ok := requests_ok w - 1\<rparr>"
  from False assms have run: "save_loop now data ?w1 = (r, w')"
    by (simp add: save_results_to_gsheet_def connect_to_gsheet_def sink_request_def)
  from save_loop_rows[OF run] obtain k where k: "k \<le> length data"
    "sheet w' = sheet w @ take k (logged_rows now (now_calls w) data)"
    "r = None \<longrightarrow> k = length data" by auto
  have len: "length (logged_rows now c data) = length data" for c
    by (induction data arbitrary: c) simp_all
  have a: "\<exists>k\<le>length data. sheet w' = sheet w @ take k (logged_rows now (now_calls w) data)"
    using k by blast
  have b: "r = None \<longrightarrow> sheet w' = sheet w @ logged_rows now (now_calls w) data"
    using k len by simp
  have c: "length data < requests_ok w \<longrightarrow> r = None"
    using save_loop_ok[of data ?w1 now] run by simp
  show ?thesis
    using a b c logged_rows_shape[of now "now_calls w" data] by blast
qed

theorem save_results_appends_rows_witness:
  "save_results_to_gsheet demo_clock [(''a.pdf'', 0.87654321), (''b.pdf'', 0.03125)]
       \<lparr>sheet = [[Str ''old'']], now_calls = 0, requests_ok = 3\<rparr>
     = (None, \<lparr>sheet = [[Str ''old''],
             [Str ''a.pdf'', Num (PyFloat 0.8765), Str ''2024-05-17 09:30:00''],
             [Str ''b.pdf'', Num (PyFloat 0.0312), Str ''2024-05-17 09:30:01'']],
           now_calls = 2, requests_ok = 0\<rparr>)
   \<and> [[Str ''old''],
       [Str ''a.pdf'', Num (PyFloat 0.8765), Str ''2024-05-17 09:30:00''],
       [Str ''b.pdf'', Num (PyFloat 0.0312), Str ''2024-05-17 09:30:01'']]
     = [[Str ''old'']] @ logged_rows demo_clock 0 [(''a.pdf'', 0.87654321), (''b.pdf'', 0.03125)]
   \<and> (\<forall>k. is_datetime (demo_clock k) \<and> 1000 \<le> year (demo_clock k))
   \<and> matches_shape ''9999-99-99 99:99:99'' ''2024-05-17 09:30:01''"
proof -
  have run: "save_results_to_gsheet demo_clock [(''a.pdf'', 0.87654321), (''b.pdf'', 0.03125)]
       \<lparr>sheet = [[Str ''old'']], now_calls = 0, requests_ok = 3\<rparr>
     = (None, \<lparr>sheet = [[Str ''old''],
             [Str ''a.pdf'', Num (PyFloat 0.8765), Str ''2024-05-17 09:30:00''],
             [Str ''b.pdf'', Num (PyFloat 0.0312), Str ''2024-05-17 09:30:01'']],
           now_calls = 2, requests_ok = 0\<rparr>)"
    by (simp add: save_results_to_gsheet_def connect_to_gsheet_def sink_request_def
        datetime_now_def append_row_def demo_clock_def py_round_def round_half_even_def
        directive_def pad2_def str_nat.simps digit_char_def char_of_def bit_Suc_0_iff Let_def)
  have sh: "matches_shape ''9999-99-99 99:99:99'' ''2024-05-17 09:30:01''"
    by (simp add: is_digit_def)
  show ?thesis
    using run sh demo_clock_valid save_results_appends_rows [OF run] by simp
qed

end
